theory Spec2Isabelle
  imports Complex_Main
begin

section \<open>Data model\<close>

text \<open>
  The three utilities of the repository work on pandas tables and series of binary64
  numbers. A table is modelled as an association list from column names to columns, in
  column order. The values of a numeric column (dtype \<open>float64\<close>) are finite numbers,
  modelled as reals.

  Exceptions are values: every place where the Python raises is an \<open>Inl\<close> branch.
\<close>

datatype pyerr = KeyError string | ValueError | IndexError | TypeError | ZeroDivisionError
  | LinAlgError

type_synonym dataframe = "(string \<times> real list) list"

definition columns :: "(string \<times> 'a) list \<Rightarrow> string list" where
  "columns df = map fst df"

text \<open>\<open>df[name]\<close>: the column of that name, \<open>KeyError\<close> when there is none.\<close>

definition getitem :: "(string \<times> 'a) list \<Rightarrow> string \<Rightarrow> pyerr + 'a" where
  "getitem df name = (case map_of df name of None \<Rightarrow> Inl (KeyError name) | Some c \<Rightarrow> Inr c)"



subsection \<open>Floating-point results\<close>

text \<open>
  A computed float is a finite number, an infinity or NaN (the missing-value marker of
  pandas). The rounding of binary64 to the nearest representable number is abstracted away,
  its range is not: a result of magnitude \<open>2\<^sup>1\<^sup>0\<^sup>2\<^sup>4 - 2\<^sup>9\<^sup>7\<^sup>0\<close> or more rounds to an infinity, and a
  product or quotient of magnitude \<open>2\<^sup>-\<^sup>1\<^sup>0\<^sup>7\<^sup>5\<close> or less rounds to zero. A sum or difference of
  two floats never underflows. The special values follow IEEE 754; a zero divisor is taken
  as \<open>+0\<close>, which is the only zero the modelled code divides by (a square, a sum of
  non-negative weights, or a count).
\<close>

datatype fl = Finite real | PosInf | NegInf | NaN

definition signed_inf :: "real \<Rightarrow> fl" where
  "signed_inf a = (if 0 < a then PosInf else if a < 0 then NegInf else NaN)"

definition ovf :: real where
  "ovf = 2 ^ 1024 - 2 ^ 970"

definition udf :: real where
  "udf = 1 / 2 ^ 1075"

text \<open>The float of an exact sum or difference, and of an exact product or quotient.\<close>

definition fl_sum :: "real \<Rightarrow> fl" where
  "fl_sum r = (if ovf \<le> \<bar>r\<bar> then signed_inf r else Finite r)"

definition fl_of :: "real \<Rightarrow> fl" where
  "fl_of r =
     (if ovf \<le> \<bar>r\<bar> then signed_inf r else if \<bar>r\<bar> \<le> udf then Finite 0 else Finite r)"

fun fl_add :: "fl \<Rightarrow> fl \<Rightarrow> fl" where
  "fl_add (Finite a) (Finite b) = fl_sum (a + b)"
| "fl_add NaN _ = NaN"
| "fl_add _ NaN = NaN"
| "fl_add PosInf NegInf = NaN"
| "fl_add NegInf PosInf = NaN"
| "fl_add PosInf _ = PosInf"
| "fl_add _ PosInf = PosInf"
| "fl_add NegInf _ = NegInf"
| "fl_add _ NegInf = NegInf"

fun fl_neg :: "fl \<Rightarrow> fl" where
  "fl_neg (Finite a) = Finite (- a)"
| "fl_neg PosInf = NegInf"
| "fl_neg NegInf = PosInf"
| "fl_neg NaN = NaN"

definition fl_sub :: "fl \<Rightarrow> fl \<Rightarrow> fl" where
  "fl_sub a b = fl_add a (fl_neg b)"

fun fl_mul :: "fl \<Rightarrow> fl \<Rightarrow> fl" where
  "fl_mul (Finite a) (Finite b) = fl_of (a * b)"
| "fl_mul NaN _ = NaN"
| "fl_mul _ NaN = NaN"
| "fl_mul (Finite a) PosInf = signed_inf a"
| "fl_mul (Finite a) NegInf = signed_inf (- a)"
| "fl_mul PosInf (Finite b) = signed_inf b"
| "fl_mul NegInf (Finite b) = signed_inf (- b)"
| "fl_mul PosInf PosInf = PosInf"
| "fl_mul NegInf NegInf = PosInf"
| "fl_mul PosInf NegInf = NegInf"
| "fl_mul NegInf PosInf = NegInf"

fun fl_div :: "fl \<Rightarrow> fl \<Rightarrow> fl" where
  "fl_div (Finite a) (Finite b) = (if b = 0 then signed_inf a else fl_of (a / b))"
| "fl_div NaN _ = NaN"
| "fl_div _ NaN = NaN"
| "fl_div (Finite a) PosInf = Finite 0"
| "fl_div (Finite a) NegInf = Finite 0"
| "fl_div PosInf (Finite b) = (if 0 \<le> b then PosInf else NegInf)"
| "fl_div NegInf (Finite b) = (if 0 \<le> b then NegInf else PosInf)"
| "fl_div PosInf PosInf = NaN"
| "fl_div PosInf NegInf = NaN"
| "fl_div NegInf PosInf = NaN"
| "fl_div NegInf NegInf = NaN"

fun fl_sqrt :: "fl \<Rightarrow> fl" where
  "fl_sqrt (Finite a) = (if a < 0 then NaN else Finite (sqrt a))"
| "fl_sqrt PosInf = PosInf"
| "fl_sqrt NegInf = NaN"
| "fl_sqrt NaN = NaN"

fun isnan :: "fl \<Rightarrow> bool" where
  "isnan NaN = True"
| "isnan _ = False"

section \<open>Inverse-variance weighted average (error_weighted_average.py)\<close>

text \<open>
  What this function does on a column depends on the dtype of the column. A column of
  numbers has dtype \<open>float64\<close>; the columns of a table made without data, as
  \<open>pd.DataFrame(columns=[...])\<close> makes it, are empty and have dtype \<open>object\<close>. (Integer
  columns and object columns that hold values are not modelled.)
\<close>

datatype series = Float64 "real list" | ObjectEmpty

text \<open>A computed series: floats, or the empty series of dtype \<open>object\<close>.\<close>

datatype fseries = FloatS "fl list" | ObjectS

text \<open>
  The sum of a series is a numpy float, except that the sum of the empty object series is
  the Python integer 0.
\<close>

datatype scalar = NpFloat fl | PyInt int

text \<open>\<open>s ** 2\<close>, \<open>a / s\<close> and \<open>p * s\<close>, element by element.\<close>

fun series_square :: "series \<Rightarrow> fseries" where
  "series_square (Float64 vs) = FloatS (map (\<lambda>v. fl_of (v * v)) vs)"
| "series_square ObjectEmpty = ObjectS"

fun series_rdiv :: "real \<Rightarrow> fseries \<Rightarrow> fseries" where
  "series_rdiv a (FloatS vs) = FloatS (map (\<lambda>v. fl_div (Finite a) v) vs)"
| "series_rdiv a ObjectS = ObjectS"

fun series_mul :: "series \<Rightarrow> fseries \<Rightarrow> fseries" where
  "series_mul (Float64 ps) (FloatS ws) = FloatS (map2 fl_mul (map Finite ps) ws)"
| "series_mul _ _ = ObjectS"

text \<open>
  \<open>np.sum\<close> of a pandas series is the series' own \<open>sum\<close>, which skips missing values;
  the sum of no floats is \<open>0.0\<close>.
\<close>

fun np_sum :: "fseries \<Rightarrow> scalar" where
  "np_sum (FloatS vs) = NpFloat (foldl fl_add (Finite 0) (filter (\<lambda>v. \<not> isnan v) vs))"
| "np_sum ObjectS = PyInt 0"

text \<open>
  The division \<open>a / b\<close> of two such scalars: between Python integers a zero divisor raises
  \<open>ZeroDivisionError\<close>; as soon as one side is a numpy float the division is numpy's, which
  gives an infinity or NaN instead.
\<close>

fun truediv :: "scalar \<Rightarrow> scalar \<Rightarrow> pyerr + fl" where
  "truediv (PyInt a) (PyInt b) =
     (if b = 0 then Inl ZeroDivisionError else Inr (fl_of (real_of_int a / real_of_int b)))"
| "truediv (PyInt a) (NpFloat b) = Inr (fl_div (Finite (real_of_int a)) b)"
| "truediv (NpFloat a) (PyInt b) = Inr (fl_div a (Finite (real_of_int b)))"
| "truediv (NpFloat a) (NpFloat b) = Inr (fl_div a b)"

text \<open>
  \<^verbatim>\<open>weights = 1 / (df[error_col] ** 2)\<close>,
  \<^verbatim>\<open>weighted_avg = np.sum(df[property_col] * weights) / np.sum(weights)\<close>,
  \<^verbatim>\<open>weighted_avg_error = np.sqrt(1 / np.sum(weights))\<close>.
\<close>

definition weighted_average_with_error ::
  "(string \<times> series) list \<Rightarrow> string \<Rightarrow> string \<Rightarrow> pyerr + (fl \<times> fl)" where
  "weighted_average_with_error df property_col error_col =
     (case getitem df error_col of Inl e \<Rightarrow> Inl e | Inr errs \<Rightarrow>
        let weights = series_rdiv 1 (series_square errs) in
        (case getitem df property_col of Inl e \<Rightarrow> Inl e | Inr props \<Rightarrow>
           (case truediv (np_sum (series_mul props weights)) (np_sum weights) of
              Inl e \<Rightarrow> Inl e
            | Inr weighted_avg \<Rightarrow>
                (case truediv (PyInt 1) (np_sum weights) of
                   Inl e \<Rightarrow> Inl e
                 | Inr q \<Rightarrow> Inr (weighted_avg, fl_sqrt q)))))"


section \<open>Polynomial maximum estimator (compute_max.py)\<close>

subsection \<open>Series operations\<close>

text \<open>
  \<open>y.argmax()\<close>: the position of the first occurrence of the largest value, found by one
  scan that replaces the best position only on a strictly larger value.
\<close>

fun argmax_from :: "nat \<Rightarrow> real \<Rightarrow> nat \<Rightarrow> real list \<Rightarrow> nat" where
  "argmax_from best_i best_v i [] = best_i"
| "argmax_from best_i best_v i (v # vs) =
     (if best_v < v then argmax_from i v (Suc i) vs else argmax_from best_i best_v (Suc i) vs)"

fun argmax :: "real list \<Rightarrow> pyerr + nat" where
  "argmax [] = Inl ValueError"
| "argmax (v # vs) = Inr (argmax_from 0 v 1 vs)"

text \<open>\<open>s.max()\<close> and \<open>s.min()\<close> of a non-empty series.\<close>

fun series_max :: "real list \<Rightarrow> real" where
  "series_max (v # vs) = fold max vs v"

fun series_min :: "real list \<Rightarrow> real" where
  "series_min (v # vs) = fold min vs v"

text \<open>\<open>s.iloc[i]\<close> for a position \<open>i \<ge> 0\<close>: \<open>IndexError\<close> past the end.\<close>

definition iloc :: "'a list \<Rightarrow> nat \<Rightarrow> pyerr + 'a" where
  "iloc xs i = (if i < length xs then Inr (xs ! i) else Inl IndexError)"

text \<open>
  \<open>s.iloc[start:stop]\<close>: a Python slice. A negative bound counts from the end, and both
  bounds are clamped to the series, so a slice never raises.
\<close>

definition py_slice :: "'a list \<Rightarrow> int \<Rightarrow> int \<Rightarrow> 'a list" where
  "py_slice xs start stop =
     (let n = int (length xs);
          s = (if start < 0 then max 0 (n + start) else min n start);
          e = (if stop < 0 then max 0 (n + stop) else min n stop)
      in take (nat (e - s)) (drop (nat s) xs))"

definition mean :: "real list \<Rightarrow> real" where
  "mean vs = sum_list vs / real (length vs)"

subsection \<open>The numerical library\<close>

text \<open>
  numpy is not part of the repository. Its two numerical kernels are parameters of the
  model: the least-squares solver behind \<open>np.polyfit\<close> (coefficients of a polynomial of the
  given degree, highest power first), which can fail with a \<open>LinAlgError\<close>, and \<open>np.roots\<close>
  (all complex roots of a polynomial given by its coefficients). Everything proved below
  holds for every such pair.
\<close>

record numpy =
  lstsq :: "real list \<Rightarrow> real list \<Rightarrow> nat \<Rightarrow> pyerr + real list"
  roots :: "real list \<Rightarrow> complex list"

text \<open>
  \<open>np.polyfit(x, y, deg)\<close> validates its arguments before it solves: a negative degree is
  a \<open>ValueError\<close>, an empty \<open>x\<close> and vectors of different lengths are a \<open>TypeError\<close>. A
  rank-deficient system (fewer points than coefficients) is only a warning. After that the
  answer, or the error, is the solver's.
\<close>

definition np_polyfit :: "numpy \<Rightarrow> real list \<Rightarrow> real list \<Rightarrow> int \<Rightarrow> pyerr + real list" where
  "np_polyfit np xs ys deg =
     (if deg < 0 then Inl ValueError
      else if xs = [] then Inl TypeError
      else if length xs \<noteq> length ys then Inl TypeError
      else lstsq np xs ys (nat deg))"

text \<open>\<open>np.poly1d(c)\<close> drops leading zero coefficients; the zero polynomial is \<open>[0]\<close>.\<close>

definition poly1d :: "real list \<Rightarrow> real list" where
  "poly1d cs = (case dropWhile (\<lambda>c. c = 0) cs of [] \<Rightarrow> [0] | c # cs' \<Rightarrow> c # cs')"

text \<open>Evaluation of a \<open>poly1d\<close> by Horner's scheme, as \<open>np.polyval\<close> does.\<close>

definition polyval :: "real list \<Rightarrow> real \<Rightarrow> real" where
  "polyval p t = foldl (\<lambda>acc c. acc * t + c) 0 p"

text \<open>
  \<open>np.polyder(p)\<close>: with \<open>n = len(p) - 1\<close>, the coefficients \<open>p[:-1] * arange(n, 0, -1)\<close>,
  wrapped as a \<open>poly1d\<close> again.
\<close>

definition polyder_coeffs :: "real list \<Rightarrow> real list" where
  "polyder_coeffs p = map2 (\<lambda>c k. c * real k) (butlast p) (rev [1..<length p])"

definition polyder :: "real list \<Rightarrow> real list" where
  "polyder p = poly1d (polyder_coeffs p)"

subsection \<open>compute\_max\<close>

record results =
  empirical_max_x :: real
  empirical_max_y :: real
  poly_max_x :: "real option"
  poly_max_y :: "real option"
  error_x :: "real option"
  error_y :: "real option"
  RMSE :: "real option"
  warnings :: "string list"

text \<open>Python's \<open>max(items, key=key)\<close> on a non-empty list: the first item of largest key.\<close>

fun max_key :: "('a \<Rightarrow> real) \<Rightarrow> 'a \<Rightarrow> 'a list \<Rightarrow> 'a" where
  "max_key key best [] = best"
| "max_key key best (p # ps) =
     (if key best < key p then max_key key p ps else max_key key best ps)"

text \<open>
  The fit window around position \<open>idx_of_max\<close>:
  \<^verbatim>\<open>start = max(0, idx_of_max - offset)\<close>, \<^verbatim>\<open>end = min(len(x), idx_of_max + offset + 1)\<close>,
  \<^verbatim>\<open>x_window = x.iloc[start:end]\<close>, \<^verbatim>\<open>y_window = y.iloc[start:end]\<close>.
\<close>

definition fit_window :: "real list \<Rightarrow> real list \<Rightarrow> nat \<Rightarrow> int \<Rightarrow> real list \<times> real list" where
  "fit_window x y idx_of_max offset =
     (let start = max 0 (int idx_of_max - offset);
          end = min (int (length x)) (int idx_of_max + offset + 1)
      in (py_slice x start end, py_slice y start end))"

text \<open>
  The critical points kept: the roots of the derivative that \<open>np.isreal\<close> accepts (imaginary
  part zero), as reals, and of these the ones between the smallest and the largest \<open>x\<close> of
  the window, each paired with the value of the fitted polynomial.
\<close>

definition real_critical_points :: "numpy \<Rightarrow> real list \<Rightarrow> real list" where
  "real_critical_points np poly_func =
     map Re (filter (\<lambda>z. Im z = 0) (roots np (polyder poly_func)))"

definition valid_points :: "numpy \<Rightarrow> real list \<Rightarrow> real list \<Rightarrow> (real \<times> real) list" where
  "valid_points np poly_func x_window =
     map (\<lambda>x_c. (x_c, polyval poly_func x_c))
       (filter (\<lambda>x_c. series_min x_window \<le> x_c \<and> x_c \<le> series_max x_window)
          (real_critical_points np poly_func))"

text \<open>
  The function from the fit on (lines 39 to 70), given the empirical maximum and the window.
  The mean of the squared residuals is taken over the window, which is not empty once
  \<open>np.polyfit\<close> has returned.
\<close>

definition fit_and_locate ::
  "numpy \<Rightarrow> real \<Rightarrow> real \<Rightarrow> real list \<Rightarrow> real list \<Rightarrow> int \<Rightarrow> pyerr + results" where
  "fit_and_locate np emp_x emp_y x_window y_window order =
     (case np_polyfit np x_window y_window order of
        Inl e \<Rightarrow> Inl e
      | Inr coefficients \<Rightarrow>
          let poly_func = poly1d coefficients;
              y_fit = map (polyval poly_func) x_window;
              rmse = sqrt (mean (map2 (\<lambda>yw yf. (yw - yf) ^ 2) y_window y_fit));
              res = \<lparr>empirical_max_x = emp_x, empirical_max_y = emp_y,
                     poly_max_x = None, poly_max_y = None, error_x = None, error_y = None,
                     RMSE = Some rmse, warnings = []\<rparr>
          in (case valid_points np poly_func x_window of
                [] \<Rightarrow> Inr (res\<lparr>warnings := warnings res @
                                  [''No valid maxima found in polynomial fit'']\<rparr>)
              | p # ps \<Rightarrow>
                  let (px, py) = max_key snd p ps
                  in Inr (res\<lparr>poly_max_x := Some px, poly_max_y := Some py,
                              error_x := Some \<bar>emp_x - px\<bar>, error_y := Some \<bar>emp_y - py\<bar>\<rparr>)))"

text \<open>
  The whole function. The dictionary literal evaluates \<open>x.iloc[y.argmax()]\<close> first, so an
  empty \<open>y\<close> is a \<open>ValueError\<close> and a position beyond \<open>x\<close> an \<open>IndexError\<close>.
\<close>

definition compute_max :: "numpy \<Rightarrow> real list \<Rightarrow> real list \<Rightarrow> int \<Rightarrow> int \<Rightarrow> pyerr + results" where
  "compute_max np x y offset order =
     (case argmax y of
        Inl e \<Rightarrow> Inl e
      | Inr idx_of_max \<Rightarrow>
          (case iloc x idx_of_max of
             Inl e \<Rightarrow> Inl e
           | Inr emp_x \<Rightarrow>
               let emp_y = series_max y;
                   (x_window, y_window) = fit_window x y idx_of_max offset
               in fit_and_locate np emp_x emp_y x_window y_window order))"

section \<open>Grouped aggregation (aggregate_dataframe.py)\<close>

definition suffixes :: "string list" where
  "suffixes = [''+'', ''-'']"

definition base_columns :: "string list" where
  "base_columns = [''Smax'', ''Smax2'', ''Smax3'', ''Smax4'', ''M2Total'', ''M2Prime'', ''nBonds'']"

text \<open>The names \<open>f"{base}{suffix}"\<close> in the order of the two nested loops.\<close>

definition signed_columns :: "string list" where
  "signed_columns = concat (map (\<lambda>base. map (\<lambda>suffix. base @ suffix) suffixes) base_columns)"

text \<open>\<open>df[names]\<close>: the named columns in the order asked, \<open>KeyError\<close> at the first missing.\<close>

fun select_columns :: "(string \<times> 'a) list \<Rightarrow> string list \<Rightarrow> pyerr + (string \<times> 'a) list" where
  "select_columns df [] = Inr []"
| "select_columns df (name # names) =
     (case getitem df name of
        Inl e \<Rightarrow> Inl e
      | Inr c \<Rightarrow> (case select_columns df names of
                   Inl e \<Rightarrow> Inl e
                 | Inr cs \<Rightarrow> Inr ((name, c) # cs)))"

text \<open>
  pandas \<open>groupby\<close> with its defaults: the groups are the distinct keys in ascending order,
  and a group holds the values of the rows with that key, in row order.
\<close>

definition group_keys :: "real list \<Rightarrow> real list" where
  "group_keys keys = sort (remdups keys)"

definition group_values :: "real list \<Rightarrow> real list \<Rightarrow> real \<Rightarrow> real list" where
  "group_values keys vs k = map snd (filter (\<lambda>(k', v). k' = k) (zip keys vs))"

text \<open>
  The aggregation \<open>mean\<close> of a group, as pandas' \<open>group_mean\<close> computes it: a compensated
  running sum (the compensation is reset when it is NaN), divided by the number of rows.
  \<^verbatim>\<open>y = val - compensation; t = sumx + y; compensation = t - sumx - y; sumx = t\<close>
\<close>

fun kahan_step :: "fl \<times> fl \<Rightarrow> real \<Rightarrow> fl \<times> fl" where
  "kahan_step (sumx, compensation) val =
     (let y = fl_sub (Finite val) compensation;
          t = fl_add sumx y;
          c = fl_sub (fl_sub t sumx) y
      in (t, if isnan c then Finite 0 else c))"

definition agg_mean :: "real list \<Rightarrow> fl" where
  "agg_mean vs =
     (if vs = [] then NaN
      else fl_div (fst (foldl kahan_step (Finite 0, Finite 0) vs)) (Finite (real (length vs))))"

text \<open>
  The aggregation \<open>std\<close>, as pandas' \<open>group_var\<close> computes it: one pass that updates the
  running mean and the running sum of squared deviations,
  \<^verbatim>\<open>mean += (val - oldmean) / nobs; out += (val - mean) * (val - oldmean)\<close>,
  then the square root of \<open>out / (nobs - ddof)\<close> with \<open>ddof = 1\<close>, and NaN when the group has
  no more rows than \<open>ddof\<close>.
\<close>

fun welford_step :: "nat \<times> fl \<times> fl \<Rightarrow> real \<Rightarrow> nat \<times> fl \<times> fl" where
  "welford_step (nobs, meanx, out) val =
     (let n = Suc nobs;
          oldmean = meanx;
          newmean = fl_add meanx (fl_div (fl_sub (Finite val) oldmean) (Finite (real n)));
          out' = fl_add out (fl_mul (fl_sub (Finite val) newmean) (fl_sub (Finite val) oldmean))
      in (n, newmean, out'))"

definition agg_std :: "real list \<Rightarrow> fl" where
  "agg_std vs =
     (case foldl welford_step (0, Finite 0, Finite 0) vs of
        (ct, meanx, out) \<Rightarrow>
          if ct \<le> 1 then NaN else fl_sqrt (fl_div out (Finite (real (ct - 1)))))"

text \<open>
  \<open>df.groupby(by)[cols].agg(['mean', 'std'])\<close>: the index (the group keys) and, for every
  selected column, a \<open>mean\<close> and a \<open>std\<close> column under the two-level name \<open>(col, stat)\<close>.
\<close>

definition groupby_agg ::
  "dataframe \<Rightarrow> string \<Rightarrow> string list \<Rightarrow>
   pyerr + (real list \<times> ((string \<times> string) \<times> fl list) list)" where
  "groupby_agg df by cols =
     (case getitem df by of
        Inl e \<Rightarrow> Inl e
      | Inr keys \<Rightarrow>
          (case select_columns df cols of
             Inl e \<Rightarrow> Inl e
           | Inr sel \<Rightarrow>
               let ks = group_keys keys
               in Inr (ks,
                    concat (map (\<lambda>(col, vs).
                      [((col, ''mean''), map (\<lambda>k. agg_mean (group_values keys vs k)) ks),
                       ((col, ''std''), map (\<lambda>k. agg_std (group_values keys vs k)) ks)]) sel))))"

text \<open>The loop that flattens the two-level names and renames \<open>mean\<close> to \<open>avg\<close>.\<close>

definition flatten_name :: "string \<times> string \<Rightarrow> string" where
  "flatten_name cs =
     (case cs of (col, stat) \<Rightarrow>
        if stat = ''mean'' then ''avg_'' @ col
        else if stat = ''std'' then ''std_'' @ col
        else col)"

definition rename_column :: "string \<Rightarrow> string \<Rightarrow> (string \<times> 'a) list \<Rightarrow> (string \<times> 'a) list" where
  "rename_column old new df = map (\<lambda>(name, c). (if name = old then new else name, c)) df"

definition agg_cols :: "dataframe \<Rightarrow> string list" where
  "agg_cols df = ''prob'' # filter (\<lambda>col. col \<in> set (columns df)) signed_columns"

definition column_order :: "(string \<times> fl list) list \<Rightarrow> string list" where
  "column_order agg_results =
     [''idx'', ''prob''] @
     concat (map (\<lambda>col. if ''avg_'' @ col \<in> set (columns agg_results)
                         then [''avg_'' @ col, ''std_'' @ col] else []) signed_columns)"

definition transform_and_select_columns_dynamic ::
  "dataframe \<Rightarrow> pyerr + (string \<times> fl list) list" where
  "transform_and_select_columns_dynamic df =
     (case groupby_agg df ''idx'' (agg_cols df) of
        Inl e \<Rightarrow> Inl e
      | Inr (keys, agg) \<Rightarrow>
          let flat = map (\<lambda>(cs, c). (flatten_name cs, c)) agg;
              renamed = (if ''avg_prob'' \<in> set (columns flat)
                         then rename_column ''avg_prob'' ''prob'' flat else flat);
              agg_results = (''idx'', map Finite keys) # renamed
          in select_columns agg_results (column_order agg_results))"

section \<open>Notions used to state the properties\<close>


text \<open>The values of a column of a table (no values when the table has no such column).\<close>

definition col_data :: "(string \<times> 'a list) list \<Rightarrow> string \<Rightarrow> 'a list" where
  "col_data df name = (case map_of df name of None \<Rightarrow> [] | Some c \<Rightarrow> c)"

text \<open>The optional columns that a table has, in the order of the nested loops.\<close>

definition present_columns :: "dataframe \<Rightarrow> string list" where
  "present_columns df = filter (\<lambda>col. col \<in> set (columns df)) signed_columns"

text \<open>The pairs of an \<open>avg_\<close> and a \<open>std_\<close> column for a list of column names.\<close>

definition stat_columns ::
  "(string \<Rightarrow> 'a) \<Rightarrow> (string \<Rightarrow> 'a) \<Rightarrow> string list \<Rightarrow> (string \<times> 'a) list" where
  "stat_columns M S names = concat (map (\<lambda>c. [(''avg_'' @ c, M c), (''std_'' @ c, S c)]) names)"

text \<open>
  A library that gives fixed answers. The examples use it to replay the answers of numpy to
  the one call of \<open>np.polyfit\<close> and the one call of \<open>np.roots\<close> that a run makes.
\<close>

definition np_replay :: "real list \<Rightarrow> complex list \<Rightarrow> numpy" where
  "np_replay cs rs = \<lparr>lstsq = (\<lambda>xs ys deg. Inr cs), roots = (\<lambda>p. rs)\<rparr>"







section \<open>Properties of the floating-point operations\<close>

lemma ovf_pos: "0 < ovf"
  by (simp add: ovf_def)

lemma udf_pos: "0 < udf"
  by (simp add: udf_def)





section \<open>Properties of the weighted average\<close>











subsection \<open>Zero errors and the empty table\<close>

lemma weight_shape:
  "fl_div (Finite 1) (fl_of (e * e)) = PosInf
   \<or> (\<exists>r\<ge>0. fl_div (Finite 1) (fl_of (e * e)) = Finite r)"
proof -
  have nn: "0 \<le> e * e" by simp
  consider "ovf \<le> e * e" | "e * e < ovf" "e * e \<le> udf" | "e * e < ovf" "udf < e * e"
    by linarith
  then show ?thesis
  proof cases
    case 1
    then have "fl_of (e * e) = PosInf"
      using ovf_pos by (simp add: fl_of_def signed_inf_def)
    then show ?thesis by simp
  next
    case 2
    then have "fl_of (e * e) = Finite 0"
      using nn by (simp add: fl_of_def)
    then show ?thesis by (simp add: signed_inf_def)
  next
    case 3
    then have s: "fl_of (e * e) = Finite (e * e)" "e * e \<noteq> 0"
      using nn udf_pos by (auto simp: fl_of_def)
    have "0 < 1 / (e * e)" using 3 udf_pos by simp
    then have "fl_of (1 / (e * e)) = PosInf \<or> (\<exists>r\<ge>0. fl_of (1 / (e * e)) = Finite r)"
      by (auto simp: fl_of_def signed_inf_def)
    then show ?thesis using s by simp
  qed
qed

lemma fl_add_shape:
  assumes "a = PosInf \<or> (\<exists>r\<ge>0. a = Finite r)" and "b = PosInf \<or> (\<exists>r\<ge>0. b = Finite r)"
  shows "fl_add a b = PosInf \<or> (\<exists>r\<ge>0. fl_add a b = Finite r)"
proof -
  have fin: "fl_sum (r + s) = PosInf \<or> (\<exists>t\<ge>0. fl_sum (r + s) = Finite t)"
    if "0 \<le> r" "0 \<le> s" for r s :: real
  proof (cases "ovf \<le> r + s")
    case True
    then have "0 < r + s" using ovf_pos by linarith
    then show ?thesis using True by (simp add: fl_sum_def signed_inf_def)
  next
    case False
    then have "fl_sum (r + s) = Finite (r + s)" using that by (simp add: fl_sum_def)
    then show ?thesis using that by simp
  qed
  consider "a = PosInf" | r where "a = Finite r" "0 \<le> r"
    using assms(1) by blast
  then show ?thesis
  proof cases
    case 1
    then show ?thesis using assms(2) by auto
  next
    case 2
    consider "b = PosInf" | s where "b = Finite s" "0 \<le> s"
      using assms(2) by blast
    then show ?thesis
    proof cases
      case 1
      then show ?thesis using 2 by simp
    next
      case (2 s)
      then show ?thesis using \<open>a = Finite r\<close> fin [OF \<open>0 \<le> r\<close> \<open>0 \<le> s\<close>] by simp
    qed
  qed
qed

lemma fl_add_PosInf_shape:
  assumes "b = PosInf \<or> (\<exists>r\<ge>0. b = Finite r)"
  shows "fl_add PosInf b = PosInf"
  using assms by auto

lemma foldl_fl_add_PosInf:
  assumes "\<forall>v\<in>set vs. v = PosInf \<or> (\<exists>r\<ge>0. v = Finite r)"
  shows "foldl fl_add PosInf vs = PosInf"
  using assms by (induction vs) (auto simp: fl_add_PosInf_shape)

lemma foldl_fl_add_weights:
  assumes "\<forall>v\<in>set vs. v = PosInf \<or> (\<exists>r\<ge>0. v = Finite r)" and "PosInf \<in> set vs"
    and "a = PosInf \<or> (\<exists>r\<ge>0. a = Finite r)"
  shows "foldl fl_add a vs = PosInf"
  using assms
proof (induction vs arbitrary: a)
  case Nil
  then show ?case by simp
next
  case (Cons v vs)
  have v: "v = PosInf \<or> (\<exists>r\<ge>0. v = Finite r)" using Cons.prems(1) by simp
  have rest: "\<forall>v\<in>set vs. v = PosInf \<or> (\<exists>r\<ge>0. v = Finite r)" using Cons.prems(1) by simp
  have step: "fl_add a v = PosInf \<or> (\<exists>r\<ge>0. fl_add a v = Finite r)"
    by (rule fl_add_shape [OF Cons.prems(3) v])
  show ?case
  proof (cases "PosInf \<in> set vs")
    case True
    then show ?thesis using Cons.IH [OF rest True step] by simp
  next
    case False
    then have "v = PosInf" using Cons.prems(2) by simp
    moreover have "fl_add a PosInf = PosInf" using Cons.prems(3) by auto
    ultimately show ?thesis using foldl_fl_add_PosInf [OF rest] by simp
  qed
qed

lemma np_sum_weights_zero:
  assumes "0 \<in> set es"
  shows "np_sum (series_rdiv 1 (series_square (Float64 es))) = NpFloat PosInf"
proof -
  define f where "f = (\<lambda>e::real. fl_div (Finite 1) (fl_of (e * e)))"
  have shape: "\<forall>v\<in>set (map f es). v = PosInf \<or> (\<exists>r\<ge>0. v = Finite r)"
    using weight_shape by (auto simp: f_def)
  have "f 0 \<in> set (map f es)"
    using assms by simp
  moreover have "f 0 = PosInf"
    using udf_pos ovf_pos by (simp add: f_def fl_of_def signed_inf_def)
  ultimately have inf: "PosInf \<in> set (map f es)"
    by simp
  have "filter (\<lambda>v. \<not> isnan v) (map f es) = map f es"
    using shape by (intro filter_True) auto
  moreover have "foldl fl_add (Finite 0) (map f es) = PosInf"
    by (rule foldl_fl_add_weights [OF shape inf]) simp
  ultimately have s: "np_sum (FloatS (map f es)) = NpFloat PosInf"
    by simp
  have eq: "series_rdiv 1 (series_square (Float64 es)) = FloatS (map f es)"
    by (simp add: f_def o_def)
  show ?thesis by (simp only: eq s)
qed

lemma truediv_PosInf:
  "\<exists>a. truediv n (NpFloat PosInf) = Inr a \<and> (a = NaN \<or> a = Finite 0)"
proof (cases n)
  case (NpFloat v)
  then show ?thesis by (cases v) simp_all
next
  case (PyInt i)
  then show ?thesis by simp
qed

lemma truediv_zero:
  "np_sum s = NpFloat (Finite 0) \<or> np_sum s = PyInt 0 \<Longrightarrow>
   truediv (np_sum s) (NpFloat (Finite 0)) = Inr NaN"
  by (auto simp: signed_inf_def)

lemma np_sum_series_mul_Nil:
  "np_sum (series_mul props (FloatS [])) = NpFloat (Finite 0)
   \<or> np_sum (series_mul props (FloatS [])) = PyInt 0"
  by (cases props) simp_all

text \<open>
  Claim C7 says that the function fails when an error value is zero or the table is empty.
  On \<open>float64\<close> columns it does neither: the division \<open>1 / 0.0\<close> of a series is \<open>+inf\<close>,
  so the one row of value 1 and error 0 gives \<open>(inf / inf, sqrt (1 / inf)) = (NaN, 0)\<close>, and
  two empty \<open>float64\<close> columns have the sums \<open>0.0\<close> and give
  \<open>(0.0 / 0.0, sqrt (1 / 0.0)) = (NaN, +inf)\<close>.
\<close>

theorem weighted_average_zero_error_returns:
  "weighted_average_with_error [(''property'', Float64 [1]), (''error'', Float64 [0])]
     ''property'' ''error'' = Inr (NaN, Finite 0)
   \<and> weighted_average_with_error [(''property'', Float64 []), (''error'', Float64 [])]
     ''property'' ''error'' = Inr (NaN, PosInf)"
  by (simp add: weighted_average_with_error_def getitem_def fl_of_def udf_def ovf_def
        signed_inf_def)

text \<open>
  Claim C7, amended. The function fails with a \<open>ZeroDivisionError\<close> on the empty table
  whose error column has dtype \<open>object\<close>, as the columns of a table made without data have.
  It does not fail on a \<open>float64\<close> error column: when an error value is zero it returns an
  error of 0 with a weighted average that is NaN or 0, and when the column is empty it
  returns \<open>(NaN, +inf)\<close>.
\<close>

theorem weighted_average_degenerate:
  assumes ps: "getitem df property_col = Inr props"
    and es: "getitem df error_col = Inr errs"
  shows "(\<forall>es. errs = Float64 es \<and> 0 \<in> set es \<longrightarrow>
            (\<exists>a. weighted_average_with_error df property_col error_col = Inr (a, Finite 0)
                \<and> (a = NaN \<or> a = Finite 0)))
       \<and> (errs = ObjectEmpty \<longrightarrow>
            weighted_average_with_error df property_col error_col = Inl ZeroDivisionError)
       \<and> (errs = Float64 [] \<longrightarrow>
            weighted_average_with_error df property_col error_col = Inr (NaN, PosInf))"
proof (intro conjI allI impI)
  fix es assume a: "errs = Float64 es \<and> 0 \<in> set es"
  define ws where "ws = series_rdiv 1 (series_square (Float64 es))"
  have sw: "np_sum ws = NpFloat PosInf"
    unfolding ws_def using a by (intro np_sum_weights_zero) simp
  obtain v where v: "truediv (np_sum (series_mul props ws)) (NpFloat PosInf) = Inr v"
      "v = NaN \<or> v = Finite 0"
    using truediv_PosInf by blast
  have w: "series_rdiv 1 (series_square errs) = ws"
    using a by (simp only: ws_def)
  have q: "truediv (PyInt 1) (NpFloat PosInf) = Inr (Finite 0)" by simp
  have "weighted_average_with_error df property_col error_col = Inr (v, fl_sqrt (Finite 0))"
    by (simp only: weighted_average_with_error_def ps es Let_def sum.case w sw v(1) q)
  then have "weighted_average_with_error df property_col error_col = Inr (v, Finite 0)"
    by simp
  then show "\<exists>a. weighted_average_with_error df property_col error_col = Inr (a, Finite 0)
                \<and> (a = NaN \<or> a = Finite 0)"
    using v(2) by blast
next
  assume "errs = ObjectEmpty"
  then show "weighted_average_with_error df property_col error_col = Inl ZeroDivisionError"
    by (simp add: weighted_average_with_error_def ps es)
next
  assume a: "errs = Float64 []"
  have "truediv (np_sum (series_mul props (FloatS []))) (NpFloat (Finite 0)) = Inr NaN"
    by (rule truediv_zero) (rule np_sum_series_mul_Nil)
  then show "weighted_average_with_error df property_col error_col = Inr (NaN, PosInf)"
    using a by (simp add: weighted_average_with_error_def ps es signed_inf_def)
qed

theorem weighted_average_degenerate_witness:
  "(\<exists>a. weighted_average_with_error [(''property'', Float64 [3, 0]), (''error'', Float64 [2, 0])]
             ''property'' ''error'' = Inr (a, Finite 0) \<and> (a = NaN \<or> a = Finite 0))
   \<and> weighted_average_with_error [(''property'', ObjectEmpty), (''error'', ObjectEmpty)]
             ''property'' ''error'' = Inl ZeroDivisionError
   \<and> weighted_average_with_error [(''property'', Float64 []), (''error'', Float64 [])]
             ''property'' ''error'' = Inr (NaN, PosInf)"
proof -
  let ?df = "[(''property'', Float64 [3, 0]), (''error'', Float64 [2, 0])]"
  let ?obj = "[(''property'', ObjectEmpty), (''error'', ObjectEmpty)]"
  let ?emp = "[(''property'', Float64 []), (''error'', Float64 [])]"
  have p: "getitem ?df ''property'' = Inr (Float64 [3, 0])"
    and e: "getitem ?df ''error'' = Inr (Float64 [2, 0])"
    and po: "getitem ?obj ''property'' = Inr ObjectEmpty"
    and eo: "getitem ?obj ''error'' = Inr ObjectEmpty"
    and pe: "getitem ?emp ''property'' = Inr (Float64 [])"
    and ee: "getitem ?emp ''error'' = Inr (Float64 [])"
    by (simp_all add: getitem_def)
  show ?thesis
    using weighted_average_degenerate [OF p e] weighted_average_degenerate [OF po eo]
      weighted_average_degenerate [OF pe ee]
    by simp
qed

section \<open>Properties of the grouped aggregation\<close>

subsection \<open>The compensated sum\<close>




subsection \<open>The running variance\<close>











lemma signed_columns_eq:
  "signed_columns = [''Smax+'', ''Smax-'', ''Smax2+'', ''Smax2-'', ''Smax3+'', ''Smax3-'',
     ''Smax4+'', ''Smax4-'', ''M2Total+'', ''M2Total-'', ''M2Prime+'', ''M2Prime-'',
     ''nBonds+'', ''nBonds-'']"
  by (simp add: signed_columns_def base_columns_def suffixes_def)

lemma prob_not_signed: "''prob'' \<notin> set signed_columns"
  by (simp add: signed_columns_eq)

lemma prob_not_present: "''prob'' \<notin> set (present_columns df)"
  using prob_not_signed by (simp add: present_columns_def)


lemma getitem_col_data: "n \<in> set (columns df) \<Longrightarrow> getitem df n = Inr (col_data df n)"
  by (auto simp: getitem_def col_data_def columns_def map_of_eq_None_iff split: option.splits)

lemma getitem_missing: "n \<notin> set (columns df) \<Longrightarrow> getitem df n = Inl (KeyError n)"
  by (auto simp: getitem_def columns_def map_of_eq_None_iff split: option.splits)

lemma select_columns_present:
  "set names \<subseteq> set (columns df) \<Longrightarrow>
   select_columns df names = Inr (map (\<lambda>n. (n, col_data df n)) names)"
  by (induction names) (simp_all add: getitem_col_data)

lemma select_columns_target:
  "\<forall>(n, v)\<in>set target. map_of df n = Some v \<Longrightarrow> select_columns df (columns target) = Inr target"
  by (induction target) (auto simp: columns_def getitem_def)

lemma stat_columns_Cons:
  "stat_columns M S (c # cs) = (''avg_'' @ c, M c) # (''std_'' @ c, S c) # stat_columns M S cs"
  by (simp add: stat_columns_def)

lemma stat_columns_Nil: "stat_columns M S [] = []"
  by (simp add: stat_columns_def)

lemma columns_stat_columns:
  "columns (stat_columns M S names) = concat (map (\<lambda>c. [''avg_'' @ c, ''std_'' @ c]) names)"
  by (induction names) (simp_all add: stat_columns_Cons stat_columns_Nil columns_def)

lemma in_stat_columns:
  "(n, v) \<in> set (stat_columns M S names) \<longleftrightarrow>
     (\<exists>c\<in>set names. (n = ''avg_'' @ c \<and> v = M c) \<or> (n = ''std_'' @ c \<and> v = S c))"
  by (induction names) (auto simp: stat_columns_Cons stat_columns_Nil)

lemma map_of_stat_columns:
  "(n, v) \<in> set (stat_columns M S names) \<Longrightarrow> map_of (stat_columns M S names) n = Some v"
  by (induction names) (auto simp: stat_columns_Cons stat_columns_Nil in_stat_columns)

lemma flatten_stat_columns:
  "map (\<lambda>(cs, c). (flatten_name cs, c))
     (concat (map (\<lambda>(col, vs). [((col, ''mean''), M col vs), ((col, ''std''), S col vs)])
        (map (\<lambda>n. (n, f n)) names)))
   = stat_columns (\<lambda>n. M n (f n)) (\<lambda>n. S n (f n)) names"
  by (induction names) (simp_all add: stat_columns_Cons stat_columns_Nil flatten_name_def)

lemma rename_stat_columns:
  "''prob'' \<notin> set names \<Longrightarrow>
   rename_column ''avg_prob'' ''prob'' (stat_columns M S names) = stat_columns M S names"
  by (induction names) (auto simp: stat_columns_Cons stat_columns_Nil rename_column_def)

lemma columns_Cons: "columns (c # df) = fst c # columns df"
  by (simp add: columns_def)

lemma avg_in_stat_columns:
  "''avg_'' @ c \<in> set (columns (stat_columns M S names)) \<longleftrightarrow> c \<in> set names"
  by (induction names) (auto simp: stat_columns_Cons stat_columns_Nil columns_Cons columns_def)

lemma avg_in_columns:
  "''avg_'' @ c \<in> set (columns ((''idx'', i) # (''prob'', p) # (''std_prob'', q) # stat_columns M S names))
     \<longleftrightarrow> c \<in> set names"
  using avg_in_stat_columns [of c M S names] by (simp add: columns_Cons)

lemma concat_map_if_filter:
  "concat (map (\<lambda>c. if P c then f c else []) cs) = concat (map f (filter P cs))"
  by (induction cs) simp_all

lemma agg_cols_present: "agg_cols df = ''prob'' # present_columns df"
  by (simp add: agg_cols_def present_columns_def)

lemma present_subset: "set (present_columns df) \<subseteq> set (columns df)"
  by (auto simp: present_columns_def)

lemma groupby_agg_result:
  assumes idx: "getitem df ''idx'' = Inr keys" and prob: "''prob'' \<in> set (columns df)"
  shows "groupby_agg df ''idx'' (agg_cols df) =
           Inr (group_keys keys,
                concat (map (\<lambda>(col, vs).
                     [((col, ''mean''), map (\<lambda>k. agg_mean (group_values keys vs k)) (group_keys keys)),
                      ((col, ''std''), map (\<lambda>k. agg_std (group_values keys vs k)) (group_keys keys))])
                   (map (\<lambda>n. (n, col_data df n)) (agg_cols df))))"
proof -
  have "set (agg_cols df) \<subseteq> set (columns df)"
    using prob present_subset by (auto simp: agg_cols_present)
  then have sel: "select_columns df (agg_cols df) = Inr (map (\<lambda>n. (n, col_data df n)) (agg_cols df))"
    by (rule select_columns_present)
  show ?thesis
    by (simp only: groupby_agg_def idx sel sum.case Let_def)
qed

lemma transform_result:
  assumes idx: "getitem df ''idx'' = Inr keys" and prob: "''prob'' \<in> set (columns df)"
  shows "transform_and_select_columns_dynamic df =
     Inr ((''idx'', map Finite (group_keys keys)) #
          (''prob'', map (\<lambda>k. agg_mean (group_values keys (col_data df ''prob'') k)) (group_keys keys)) #
          stat_columns (\<lambda>c. map (\<lambda>k. agg_mean (group_values keys (col_data df c) k)) (group_keys keys))
                       (\<lambda>c. map (\<lambda>k. agg_std (group_values keys (col_data df c) k)) (group_keys keys))
                       (present_columns df))"
proof -
  define ks where "ks = group_keys keys"
  define M where "M = (\<lambda>c. map (\<lambda>k. agg_mean (group_values keys (col_data df c) k)) ks)"
  define S where "S = (\<lambda>c. map (\<lambda>k. agg_std (group_values keys (col_data df c) k)) ks)"
  define agg where "agg = concat (map (\<lambda>(col, vs).
                     [((col, ''mean''), map (\<lambda>k. agg_mean (group_values keys vs k)) ks),
                      ((col, ''std''), map (\<lambda>k. agg_std (group_values keys vs k)) ks)])
                   (map (\<lambda>n. (n, col_data df n)) (agg_cols df)))"
  define flat where "flat = map (\<lambda>(cs, c). (flatten_name cs, c)) agg"
  define renamed where "renamed = (if ''avg_prob'' \<in> set (columns flat)
                         then rename_column ''avg_prob'' ''prob'' flat else flat)"
  define agg_results where "agg_results = (''idx'', map Finite ks) # renamed"
  define target where "target = (''idx'', map Finite ks) # (''prob'', M ''prob'') #
                           stat_columns M S (present_columns df)"
  have g: "groupby_agg df ''idx'' (agg_cols df) = Inr (ks, agg)"
    unfolding ks_def agg_def by (rule groupby_agg_result [OF idx prob])
  have run: "transform_and_select_columns_dynamic df =
               select_columns agg_results (column_order agg_results)"
    by (simp only: transform_and_select_columns_dynamic_def g sum.case prod.case Let_def
          flat_def renamed_def agg_results_def)
  have flat: "flat = stat_columns M S (agg_cols df)"
    unfolding flat_def agg_def M_def S_def by (rule flatten_stat_columns)
  have flat': "flat = (''avg_prob'', M ''prob'') # (''std_prob'', S ''prob'') #
                       stat_columns M S (present_columns df)"
    by (simp add: flat agg_cols_present stat_columns_Cons)
  have "''avg_prob'' \<in> set (columns flat)"
    by (simp add: flat' columns_Cons)
  then have "renamed = rename_column ''avg_prob'' ''prob'' flat"
    by (simp add: renamed_def)
  also have "\<dots> = (''prob'', M ''prob'') # (''std_prob'', S ''prob'') #
                     rename_column ''avg_prob'' ''prob'' (stat_columns M S (present_columns df))"
    by (simp add: flat' rename_column_def)
  finally have renamed: "renamed = (''prob'', M ''prob'') # (''std_prob'', S ''prob'') #
                     stat_columns M S (present_columns df)"
    by (simp add: rename_stat_columns [OF prob_not_present])
  have res: "agg_results = (''idx'', map Finite ks) # (''prob'', M ''prob'') #
                (''std_prob'', S ''prob'') # stat_columns M S (present_columns df)"
    by (simp add: agg_results_def renamed)
  have order: "column_order agg_results = columns target"
  proof -
    have "concat (map (\<lambda>col. if ''avg_'' @ col \<in> set (columns agg_results)
                         then [''avg_'' @ col, ''std_'' @ col] else []) signed_columns)
          = concat (map (\<lambda>col. if col \<in> set (present_columns df)
                         then [''avg_'' @ col, ''std_'' @ col] else []) signed_columns)"
      by (simp only: res avg_in_columns)
    also have "\<dots> = concat (map (\<lambda>col. [''avg_'' @ col, ''std_'' @ col])
                          (filter (\<lambda>col. col \<in> set (present_columns df)) signed_columns))"
      by (rule concat_map_if_filter)
    also have "filter (\<lambda>col. col \<in> set (present_columns df)) signed_columns = present_columns df"
      by (auto simp: present_columns_def intro: filter_cong)
    finally show ?thesis
      by (simp add: column_order_def target_def columns_Cons columns_stat_columns)
  qed
  have "\<forall>(n, v)\<in>set target. map_of agg_results n = Some v"
  proof (clarify)
    fix n v assume "(n, v) \<in> set target"
    then consider "n = ''idx''" "v = map Finite ks" | "n = ''prob''" "v = M ''prob''"
      | "(n, v) \<in> set (stat_columns M S (present_columns df))"
      by (auto simp: target_def)
    then show "map_of agg_results n = Some v"
    proof cases
      case 3
      then obtain c where c: "c \<in> set (present_columns df)"
        and n: "n = ''avg_'' @ c \<or> n = ''std_'' @ c"
        by (auto simp: in_stat_columns)
      have "c \<noteq> ''prob''" using c prob_not_present by auto
      then have "n \<noteq> ''idx''" "n \<noteq> ''prob''" "n \<noteq> ''std_prob''"
        using n by auto
      then show ?thesis
        using map_of_stat_columns [OF 3] by (simp add: res)
    qed (simp_all add: res)
  qed
  then have "select_columns agg_results (columns target) = Inr target"
    by (rule select_columns_target)
  then show ?thesis
    using run order by (simp add: target_def M_def S_def ks_def)
qed

lemma columns_iff_getitem: "n \<in> set (columns df) \<longleftrightarrow> (\<exists>c. getitem df n = Inr c)"
  by (auto simp: getitem_def columns_def map_of_eq_None_iff split: option.splits dest: map_of_SomeD
        intro: rev_image_eqI)

text \<open>
  Claim C9. The aggregation fails with an error when the \<open>idx\<close> column or the \<open>prob\<close>
  column is absent (the \<open>KeyError\<close> of the group-by, for \<open>idx\<close> first), and with both
  present it returns a table whatever optional signed-suffix columns the input has or lacks.
\<close>

theorem aggregation_required_columns:
  "(''idx'' \<notin> set (columns df) \<longrightarrow>
      transform_and_select_columns_dynamic df = Inl (KeyError ''idx''))
   \<and> (''idx'' \<in> set (columns df) \<and> ''prob'' \<notin> set (columns df) \<longrightarrow>
      transform_and_select_columns_dynamic df = Inl (KeyError ''prob''))
   \<and> (''idx'' \<in> set (columns df) \<and> ''prob'' \<in> set (columns df) \<longrightarrow>
      (\<exists>out. transform_and_select_columns_dynamic df = Inr out))"
proof (intro conjI impI)
  assume "''idx'' \<notin> set (columns df)"
  then have "getitem df ''idx'' = Inl (KeyError ''idx'')"
    by (rule getitem_missing)
  then show "transform_and_select_columns_dynamic df = Inl (KeyError ''idx'')"
    by (simp add: transform_and_select_columns_dynamic_def groupby_agg_def)
next
  assume a: "''idx'' \<in> set (columns df) \<and> ''prob'' \<notin> set (columns df)"
  then obtain keys where k: "getitem df ''idx'' = Inr keys"
    by (auto simp: columns_iff_getitem)
  have "getitem df ''prob'' = Inl (KeyError ''prob'')"
    using a by (simp add: getitem_missing)
  then have "select_columns df (agg_cols df) = Inl (KeyError ''prob'')"
    by (simp add: agg_cols_def)
  then show "transform_and_select_columns_dynamic df = Inl (KeyError ''prob'')"
    by (simp add: transform_and_select_columns_dynamic_def groupby_agg_def k)
next
  assume a: "''idx'' \<in> set (columns df) \<and> ''prob'' \<in> set (columns df)"
  then obtain keys where k: "getitem df ''idx'' = Inr keys"
    by (auto simp: columns_iff_getitem)
  show "\<exists>out. transform_and_select_columns_dynamic df = Inr out"
    using transform_result [OF k] a by blast
qed

theorem aggregation_required_columns_witness:
  "transform_and_select_columns_dynamic [(''prob'', [1, 2]), (''Smax+'', [3, 4])]
     = Inl (KeyError ''idx'')
   \<and> transform_and_select_columns_dynamic [(''idx'', [1, 2]), (''Smax+'', [3, 4])]
     = Inl (KeyError ''prob'')
   \<and> (\<exists>out. transform_and_select_columns_dynamic [(''idx'', [1, 2]), (''prob'', [3, 4])]
     = Inr out)"
  using aggregation_required_columns [of "[(''prob'', [1, 2]), (''Smax+'', [3, 4])]"]
    aggregation_required_columns [of "[(''idx'', [1, 2]), (''Smax+'', [3, 4])]"]
    aggregation_required_columns [of "[(''idx'', [1, 2]), (''prob'', [3, 4])]"]
  by (simp add: columns_def)

lemma group_keys_props:
  "sorted_wrt (<) (group_keys keys)" "set (group_keys keys) = set keys"
  "distinct (group_keys keys)" "length (group_keys keys) = card (set keys)"
proof -
  show "sorted_wrt (<) (group_keys keys)"
    by (simp add: group_keys_def strict_sorted_iff)
  show "set (group_keys keys) = set keys" by (simp add: group_keys_def)
  show "distinct (group_keys keys)" by (simp add: group_keys_def)
  show "length (group_keys keys) = card (set keys)"
    by (simp add: group_keys_def length_remdups_card_conv)
qed

text \<open>
  Claim C10. The rows of the output are in strictly ascending order of \<open>idx\<close>: the \<open>idx\<close>
  column of the output lists the distinct keys of the input, sorted.
\<close>

theorem aggregation_rows_sorted:
  assumes idx: "getitem df ''idx'' = Inr keys" and prob: "''prob'' \<in> set (columns df)"
  shows "\<exists>out ks. transform_and_select_columns_dynamic df = Inr out
           \<and> getitem out ''idx'' = Inr (map Finite ks)
           \<and> sorted_wrt (<) ks \<and> set ks = set keys"
proof -
  obtain rest where "transform_and_select_columns_dynamic df
                       = Inr ((''idx'', map Finite (group_keys keys)) # rest)"
    using transform_result [OF idx prob] by blast
  moreover have "getitem ((''idx'', map Finite (group_keys keys)) # rest) ''idx''
                   = Inr (map Finite (group_keys keys))"
    by (simp add: getitem_def)
  ultimately show ?thesis
    using group_keys_props(1,2) by blast
qed

theorem aggregation_rows_sorted_witness:
  "\<exists>out ks. transform_and_select_columns_dynamic [(''idx'', [3, 1, 3, 2]), (''prob'', [1, 2, 3, 4])] = Inr out
           \<and> getitem out ''idx'' = Inr (map Finite ks)
           \<and> sorted_wrt (<) ks \<and> set ks = {1, 2, 3}"
proof -
  let ?df = "[(''idx'', [3, 1, 3, 2]), (''prob'', [1, 2, 3, 4])] :: dataframe"
  have i: "getitem ?df ''idx'' = Inr [3, 1, 3, 2]" by (simp add: getitem_def)
  have p: "''prob'' \<in> set (columns ?df)" by (simp add: columns_def)
  have "set [3, 1, 3, 2 :: real] = {1, 2, 3}" by auto
  then show ?thesis using aggregation_rows_sorted [OF i p] by simp
qed

text \<open>
  Claim C8. The columns of the output are \<open>idx\<close>, \<open>prob\<close>, and then, for each base name of
  the fixed list in its order and each suffix (\<open>+\<close> then \<open>-\<close>), the pair \<open>avg_\<close>, \<open>std_\<close>
  of that column when the input has it. No other column of the input appears in the output.
\<close>

theorem aggregation_column_order:
  assumes idx: "''idx'' \<in> set (columns df)" and prob: "''prob'' \<in> set (columns df)"
  shows "\<exists>out. transform_and_select_columns_dynamic df = Inr out
           \<and> columns out = [''idx'', ''prob''] @
               concat (map (\<lambda>c. if c \<in> set (columns df) then [''avg_'' @ c, ''std_'' @ c] else [])
                 [''Smax+'', ''Smax-'', ''Smax2+'', ''Smax2-'', ''Smax3+'', ''Smax3-'',
                  ''Smax4+'', ''Smax4-'', ''M2Total+'', ''M2Total-'', ''M2Prime+'', ''M2Prime-'',
                  ''nBonds+'', ''nBonds-''])"
proof -
  obtain keys where k: "getitem df ''idx'' = Inr keys"
    using idx by (auto simp: columns_iff_getitem)
  define M where "M = (\<lambda>c. map (\<lambda>k. agg_mean (group_values keys (col_data df c) k)) (group_keys keys))"
  define S where "S = (\<lambda>c. map (\<lambda>k. agg_std (group_values keys (col_data df c) k)) (group_keys keys))"
  define out where "out = (''idx'', map Finite (group_keys keys)) # (''prob'', M ''prob'') #
                             stat_columns M S (present_columns df)"
  have r: "transform_and_select_columns_dynamic df = Inr out"
    unfolding out_def M_def S_def by (rule transform_result [OF k prob])
  have "columns out = [''idx'', ''prob''] @
          concat (map (\<lambda>c. [''avg_'' @ c, ''std_'' @ c]) (present_columns df))"
    by (simp add: out_def columns_Cons columns_stat_columns)
  also have "concat (map (\<lambda>c. [''avg_'' @ c, ''std_'' @ c]) (present_columns df))
        = concat (map (\<lambda>c. if c \<in> set (columns df) then [''avg_'' @ c, ''std_'' @ c] else [])
            signed_columns)"
    unfolding present_columns_def by (rule concat_map_if_filter [symmetric])
  finally show ?thesis
    using r by (simp only: signed_columns_eq) blast
qed

theorem aggregation_column_order_witness:
  "\<exists>out. transform_and_select_columns_dynamic
            [(''nBonds-'', [2, 4, 6, 8]), (''other'', [0, 0, 0, 0]), (''idx'', [1, 1, 2, 2]),
             (''Smax+'', [10, 20, 30, 40]), (''prob'', [1, 3, 5, 7])] = Inr out
        \<and> columns out = [''idx'', ''prob'', ''avg_Smax+'', ''std_Smax+'', ''avg_nBonds-'', ''std_nBonds-'']"
  using aggregation_column_order
     [of "[(''nBonds-'', [2, 4, 6, 8]), (''other'', [0, 0, 0, 0]), (''idx'', [1, 1, 2, 2]),
             (''Smax+'', [10, 20, 30, 40]), (''prob'', [1, 3, 5, 7])]"]
  by (simp add: columns_def)




lemmas transform_eval =
  transform_and_select_columns_dynamic_def groupby_agg_def agg_cols_def
  signed_columns_def base_columns_def suffixes_def columns_def getitem_def group_keys_def
  group_values_def agg_mean_def agg_std_def flatten_name_def rename_column_def
  column_order_def fl_sub_def fl_sum_def fl_of_def ovf_def udf_def signed_inf_def Let_def







text \<open>The example of the docstring, and a group of a single row.\<close>

lemma transform_docstring_example:
  "transform_and_select_columns_dynamic
     [(''idx'', [1, 1, 2, 2]), (''prob'', [1 / 10, 3 / 10, 5 / 10, 7 / 10]),
      (''Smax+'', [10, 20, 30, 40]), (''nBonds-'', [2, 4, 6, 8])]
   = Inr [(''idx'', [Finite 1, Finite 2]), (''prob'', [Finite (1 / 5), Finite (3 / 5)]),
          (''avg_Smax+'', [Finite 15, Finite 35]), (''std_Smax+'', [Finite (sqrt 50), Finite (sqrt 50)]),
          (''avg_nBonds-'', [Finite 3, Finite 7]), (''std_nBonds-'', [Finite (sqrt 2), Finite (sqrt 2)])]"
  by (simp add: transform_eval)

lemma transform_single_row_group:
  "transform_and_select_columns_dynamic
     [(''idx'', [7]), (''prob'', [1]), (''Smax+'', [10])]
   = Inr [(''idx'', [Finite 7]), (''prob'', [Finite 1]),
          (''avg_Smax+'', [Finite 10]), (''std_Smax+'', [NaN])]"
  by (simp add: transform_eval)

section \<open>Properties of the polynomial maximum estimator\<close>

lemma argmax_from_spec:
  assumes "bi < length pre" and "i = length pre" and "pre ! bi = bv"
    and "\<forall>j<length pre. pre ! j \<le> bv" and "\<forall>j<bi. pre ! j < bv"
  shows "argmax_from bi bv i vs < length (pre @ vs)
       \<and> (\<forall>j<length (pre @ vs). (pre @ vs) ! j \<le> (pre @ vs) ! argmax_from bi bv i vs)
       \<and> (\<forall>j<argmax_from bi bv i vs. (pre @ vs) ! j < (pre @ vs) ! argmax_from bi bv i vs)"
  using assms
proof (induction vs arbitrary: pre bi bv i)
  case Nil
  then show ?case by simp
next
  case (Cons v vs)
  let ?pre = "pre @ [v]"
  show ?case
  proof (cases "bv < v")
    case True
    have "argmax_from i v (Suc i) vs < length (?pre @ vs)
       \<and> (\<forall>j<length (?pre @ vs). (?pre @ vs) ! j \<le> (?pre @ vs) ! argmax_from i v (Suc i) vs)
       \<and> (\<forall>j<argmax_from i v (Suc i) vs. (?pre @ vs) ! j < (?pre @ vs) ! argmax_from i v (Suc i) vs)"
    proof (rule Cons.IH)
      show "i < length ?pre" using Cons.prems by simp
      show "Suc i = length ?pre" using Cons.prems by simp
      show "?pre ! i = v" using Cons.prems by simp
      show "\<forall>j<length ?pre. ?pre ! j \<le> v"
      proof (intro allI impI)
        fix j assume "j < length ?pre"
        show "?pre ! j \<le> v"
        proof (cases "j < length pre")
          case True
          then have "pre ! j \<le> bv" using Cons.prems(4) by simp
          then show ?thesis using \<open>bv < v\<close> True by (simp add: nth_append)
        next
          case False
          then have "j = length pre" using \<open>j < length ?pre\<close> by simp
          then show ?thesis by simp
        qed
      qed
      show "\<forall>j<i. ?pre ! j < v"
        using Cons.prems True by (auto simp: nth_append)
    qed
    then show ?thesis using True by simp
  next
    case False
    have "argmax_from bi bv (Suc i) vs < length (?pre @ vs)
       \<and> (\<forall>j<length (?pre @ vs). (?pre @ vs) ! j \<le> (?pre @ vs) ! argmax_from bi bv (Suc i) vs)
       \<and> (\<forall>j<argmax_from bi bv (Suc i) vs. (?pre @ vs) ! j < (?pre @ vs) ! argmax_from bi bv (Suc i) vs)"
    proof (rule Cons.IH)
      show "bi < length ?pre" using Cons.prems by simp
      show "Suc i = length ?pre" using Cons.prems by simp
      show "?pre ! bi = bv" using Cons.prems by (simp add: nth_append)
      show "\<forall>j<length ?pre. ?pre ! j \<le> bv"
        using Cons.prems False by (auto simp: nth_append less_Suc_eq)
      show "\<forall>j<bi. ?pre ! j < bv"
        using Cons.prems by (auto simp: nth_append)
    qed
    then show ?thesis using False by simp
  qed
qed

lemma argmax_spec:
  assumes "y \<noteq> []"
  shows "\<exists>i. argmax y = Inr i \<and> i < length y \<and> (\<forall>j<length y. y ! j \<le> y ! i)
             \<and> (\<forall>j<i. y ! j < y ! i)"
proof -
  obtain v vs where y: "y = v # vs" using assms by (cases y) auto
  have "argmax_from 0 v 1 vs < length ([v] @ vs)
       \<and> (\<forall>j<length ([v] @ vs). ([v] @ vs) ! j \<le> ([v] @ vs) ! argmax_from 0 v 1 vs)
       \<and> (\<forall>j<argmax_from 0 v 1 vs. ([v] @ vs) ! j < ([v] @ vs) ! argmax_from 0 v 1 vs)"
    by (rule argmax_from_spec) simp_all
  then show ?thesis by (simp add: y)
qed

lemma nth_is_Max:
  assumes "i < length y" and "\<forall>j<length y. y ! j \<le> y ! i"
  shows "y ! i = Max (set y)"
proof -
  have "Max (set y) = y ! i"
  proof (rule Max_eqI)
    show "finite (set y)" by simp
    show "y ! i \<in> set y" using assms(1) by simp
    fix v assume "v \<in> set y"
    then show "v \<le> y ! i" using assms(2) by (auto simp: in_set_conv_nth)
  qed
  then show ?thesis by simp
qed

lemma series_max_Max: "s \<noteq> [] \<Longrightarrow> series_max s = Max (set s)"
  by (cases s) (simp_all only: series_max.simps Max.set_eq_fold, simp)

lemma series_min_Min: "s \<noteq> [] \<Longrightarrow> series_min s = Min (set s)"
  by (cases s) (simp_all only: series_min.simps Min.set_eq_fold, simp)

lemma py_slice_range:
  assumes "lo \<le> hi" and "hi \<le> length xs"
  shows "py_slice xs (int lo) (int hi) = map ((!) xs) [lo..<hi]"
proof -
  have "take (hi - lo) (drop lo xs) = map ((!) xs) [lo..<hi]"
    using assms by (intro nth_equalityI) simp_all
  moreover have "nat (int hi - int lo) = hi - lo" by simp
  ultimately show ?thesis
    using assms by (simp add: py_slice_def Let_def min_def)
qed

lemma fit_and_locate_empirical:
  "fit_and_locate np ex ey xw yw order = Inr r \<Longrightarrow> empirical_max_x r = ex \<and> empirical_max_y r = ey"
  by (auto simp: fit_and_locate_def Let_def split: sum.splits list.splits prod.splits)

lemma fit_window_range:
  assumes i: "i < length y" and len: "length x = length y" and off: "0 \<le> offset"
    and lo: "lo = nat (max 0 (int i - offset))"
    and hi: "hi = nat (min (int (length x)) (int i + offset + 1))"
  shows "fit_window x y i offset = (map ((!) x) [lo..<hi], map ((!) y) [lo..<hi])"
    and "lo \<le> i" and "i < hi" and "hi \<le> length x"
proof -
  have l: "int lo = max 0 (int i - offset)" by (simp add: lo)
  have h: "int hi = min (int (length x)) (int i + offset + 1)"
    using off by (simp add: hi)
  show bounds: "lo \<le> i" "i < hi" "hi \<le> length x"
    using off i len by (auto simp: lo hi)
  have "py_slice x (int lo) (int hi) = map ((!) x) [lo..<hi]"
    using bounds by (intro py_slice_range) simp_all
  moreover have "py_slice y (int lo) (int hi) = map ((!) y) [lo..<hi]"
    using bounds len by (intro py_slice_range) simp_all
  ultimately show "fit_window x y i offset = (map ((!) x) [lo..<hi], map ((!) y) [lo..<hi])"
    by (simp add: fit_window_def Let_def l [symmetric] h [symmetric])
qed

text \<open>
  Claim C2. On sequences \<open>x\<close> and \<open>y\<close> of equal length, \<open>y\<close> not empty, and a non-negative
  \<open>offset\<close> (the inputs of the specification), \<open>idx_of_max\<close> is the position of the first
  occurrence of the largest value of \<open>y\<close>, the empirical maximum recorded is
  \<open>(x[idx_of_max], y[idx_of_max])\<close>, and the fit is made over exactly the positions
  \<open>max(0, idx_of_max - offset) \<le> k < min(len(x), idx_of_max + offset + 1)\<close>, a range that
  contains \<open>idx_of_max\<close> and stays within the sequence.
\<close>

theorem compute_max_window:
  assumes ne: "y \<noteq> []" and len: "length x = length y" and off: "0 \<le> offset"
  shows "\<exists>i lo hi. argmax y = Inr i \<and> i < length y \<and> y ! i = Max (set y) \<and> (\<forall>j<i. y ! j < y ! i)
     \<and> int lo = max 0 (int i - offset) \<and> int hi = min (int (length x)) (int i + offset + 1)
     \<and> lo \<le> i \<and> i < hi \<and> hi \<le> length x
     \<and> compute_max np x y offset order =
         fit_and_locate np (x ! i) (y ! i) (map ((!) x) [lo..<hi]) (map ((!) y) [lo..<hi]) order
     \<and> (\<forall>r. compute_max np x y offset order = Inr r \<longrightarrow>
           empirical_max_x r = x ! i \<and> empirical_max_y r = y ! i)"
proof -
  obtain i where i: "argmax y = Inr i" "i < length y" "\<forall>j<length y. y ! j \<le> y ! i"
      "\<forall>j<i. y ! j < y ! i"
    using argmax_spec [OF ne] by blast
  define lo where "lo = nat (max 0 (int i - offset))"
  define hi where "hi = nat (min (int (length x)) (int i + offset + 1))"
  have lo: "int lo = max 0 (int i - offset)" by (simp add: lo_def)
  have hi: "int hi = min (int (length x)) (int i + offset + 1)"
    using off by (simp add: hi_def)
  have w: "fit_window x y i offset = (map ((!) x) [lo..<hi], map ((!) y) [lo..<hi])"
    and bounds: "lo \<le> i" "i < hi" "hi \<le> length x"
    by (rule fit_window_range [OF i(2) len off lo_def hi_def])+
  have mx: "y ! i = Max (set y)" by (rule nth_is_Max [OF i(2,3)])
  have sm: "series_max y = y ! i" using mx series_max_Max [OF ne] by simp
  have run: "compute_max np x y offset order =
         fit_and_locate np (x ! i) (y ! i) (map ((!) x) [lo..<hi]) (map ((!) y) [lo..<hi]) order"
    using i(2) len by (simp add: compute_max_def i(1) iloc_def sm w)
  have "\<forall>r. compute_max np x y offset order = Inr r \<longrightarrow>
           empirical_max_x r = x ! i \<and> empirical_max_y r = y ! i"
    using fit_and_locate_empirical by (simp add: run)
  then show ?thesis
    using i(1,2,4) mx lo hi bounds run by blast
qed

lemma polyval_snoc: "polyval (p @ [c]) t = polyval p t * t + c"
  by (simp add: polyval_def)

lemma polyval_sum: "polyval p t = (\<Sum>i<length p. p ! i * t ^ (length p - 1 - i))"
proof (induction p rule: rev_induct)
  case Nil
  then show ?case by (simp add: polyval_def)
next
  case (snoc c p)
  have "(\<Sum>i<length p. p ! i * t ^ (length p - 1 - i)) * t
          = (\<Sum>i<length p. p ! i * t ^ (length p - i))"
  proof -
    have "p ! i * t ^ (length p - 1 - i) * t = p ! i * t ^ (length p - i)"
      if "i < length p" for i
    proof -
      have "length p - i = Suc (length p - 1 - i)" using that by simp
      then show ?thesis by simp
    qed
    then have "(\<Sum>i<length p. p ! i * t ^ (length p - 1 - i) * t)
                 = (\<Sum>i<length p. p ! i * t ^ (length p - i))"
      by (intro sum.cong) simp_all
    then show ?thesis by (simp only: sum_distrib_right)
  qed
  then show ?case
    by (simp add: polyval_snoc snoc.IH nth_append)
qed

lemma length_polyder_coeffs: "length (polyder_coeffs p) = length p - 1"
  by (simp add: polyder_coeffs_def)

lemma nth_polyder_coeffs:
  assumes "i < length p - 1"
  shows "polyder_coeffs p ! i = p ! i * real (length p - 1 - i)"
proof -
  have "rev [1..<length p] ! i = length p - 1 - i"
    using assms by (simp add: rev_nth)
  then show ?thesis
    using assms by (simp add: polyder_coeffs_def nth_butlast)
qed

lemma polyval_polyder_coeffs:
  "polyval (polyder_coeffs p) t = (\<Sum>i<length p. p ! i * (real (length p - 1 - i) * t ^ (length p - 1 - i - 1)))"
proof (cases p rule: rev_cases)
  case Nil
  then show ?thesis by (simp add: polyder_coeffs_def polyval_def)
next
  case (snoc q c)
  have "polyval (polyder_coeffs p) t
          = (\<Sum>i<length p - 1. polyder_coeffs p ! i * t ^ (length p - 1 - 1 - i))"
    by (simp add: polyval_sum length_polyder_coeffs)
  also have "\<dots> = (\<Sum>i<length p - 1. p ! i * (real (length p - 1 - i) * t ^ (length p - 1 - i - 1)))"
    by (rule sum.cong) (simp_all add: nth_polyder_coeffs)
  also have "\<dots> = (\<Sum>i<length p. p ! i * (real (length p - 1 - i) * t ^ (length p - 1 - i - 1)))"
    using snoc by simp
  finally show ?thesis .
qed

lemma polyval_zero_Cons: "polyval (0 # cs) t = polyval cs t"
  by (simp add: polyval_def)

lemma polyval_dropWhile: "polyval (dropWhile (\<lambda>c. c = 0) cs) t = polyval cs t"
  by (induction cs) (simp_all add: polyval_zero_Cons)

lemma polyval_poly1d: "polyval (poly1d cs) t = polyval cs t"
proof (cases "dropWhile (\<lambda>c. c = 0) cs")
  case Nil
  then have "polyval cs t = polyval [] t"
    using polyval_dropWhile [of cs t] by (simp only:)
  moreover have "poly1d cs = [0]"
    by (simp only: poly1d_def Nil list.case)
  ultimately show ?thesis
    by (simp add: polyval_def)
next
  case (Cons c cs')
  then have "poly1d cs = dropWhile (\<lambda>c. c = 0) cs"
    by (simp only: poly1d_def list.case)
  then show ?thesis by (simp add: polyval_dropWhile)
qed

lemma polyder_exact:
  "((\<lambda>s. polyval p s) has_real_derivative polyval (polyder p) t) (at t)"
proof -
  have "((\<lambda>s. p ! i * s ^ (length p - 1 - i)) has_real_derivative
           p ! i * (real (length p - 1 - i) * t ^ (length p - 1 - i - Suc 0))) (at t)" for i
    by (rule DERIV_cmult) (rule DERIV_pow)
  then have "((\<lambda>s. \<Sum>i<length p. p ! i * s ^ (length p - 1 - i)) has_real_derivative
          (\<Sum>i<length p. p ! i * (real (length p - 1 - i) * t ^ (length p - 1 - i - Suc 0)))) (at t)"
    by (intro DERIV_sum)
  then have "((\<lambda>s. \<Sum>i<length p. p ! i * s ^ (length p - 1 - i)) has_real_derivative
          (\<Sum>i<length p. p ! i * (real (length p - 1 - i) * t ^ (length p - 1 - i - 1)))) (at t)"
    by simp
  then show ?thesis
    by (simp only: polyval_sum [symmetric] polyder_def polyval_poly1d
          polyval_polyder_coeffs [symmetric])
qed

lemma max_key_spec:
  "max_key key b ps \<in> set (b # ps) \<and> (\<forall>q\<in>set (b # ps). key q \<le> key (max_key key b ps))"
proof (induction ps arbitrary: b)
  case Nil
  then show ?case by simp
next
  case (Cons p ps)
  show ?case
  proof (cases "key b < key p")
    case True
    then show ?thesis using Cons.IH [of p] by auto
  next
    case False
    then show ?thesis using Cons.IH [of b] by auto
  qed
qed

lemma np_polyfit_nonempty: "np_polyfit np xw yw order = Inr cs \<Longrightarrow> xw \<noteq> []"
  by (auto simp: np_polyfit_def split: if_splits)

lemma set_valid_points:
  assumes "xw \<noteq> []"
  shows "set (valid_points np p xw) =
           (\<lambda>t. (t, polyval p t)) `
             {t. \<exists>z\<in>set (roots np (polyder p)). Im z = 0 \<and> t = Re z
                   \<and> Min (set xw) \<le> t \<and> t \<le> Max (set xw)}"
  using assms
  by (auto simp: valid_points_def real_critical_points_def series_min_Min series_max_Max)

lemma compute_max_unfold:
  assumes "argmax y = Inr i" and "i < length x" and "fit_window x y i offset = (xw, yw)"
  shows "compute_max np x y offset order = fit_and_locate np (x ! i) (series_max y) xw yw order"
  using assms by (simp add: compute_max_def iloc_def)

text \<open>
  Claim C3, amended. The critical points are the roots that the library returns for
  \<open>polyder\<close> of the fitted polynomial, which is its exact derivative. The valid ones are
  those whose imaginary part is exactly zero (the test of \<open>np.isreal\<close>; a root with a small
  non-zero imaginary part is discarded) and whose real part lies between the smallest and the
  largest \<open>x\<close> of the window, bounds included. When there is one, the result holds a valid
  point of greatest fitted value as \<open>(poly_max_x, poly_max_y)\<close>, and
  \<open>error_x = |empirical_max_x - poly_max_x|\<close>, \<open>error_y = |empirical_max_y - poly_max_y|\<close>.
\<close>

theorem compute_max_polynomial_maximum:
  assumes am: "argmax y = Inr i" and il: "i < length x"
    and fw: "fit_window x y i offset = (xw, yw)"
    and fit: "np_polyfit np xw yw order = Inr cs"
    and p: "p = poly1d cs"
    and V: "V = {t. \<exists>z\<in>set (roots np (polyder p)). Im z = 0 \<and> t = Re z
                     \<and> Min (set xw) \<le> t \<and> t \<le> Max (set xw)}"
    and ne: "V \<noteq> {}"
  shows "(\<forall>t. ((\<lambda>s. polyval p s) has_real_derivative polyval (polyder p) t) (at t))
       \<and> (\<exists>r px. compute_max np x y offset order = Inr r
            \<and> px \<in> V \<and> (\<forall>t\<in>V. polyval p t \<le> polyval p px)
            \<and> poly_max_x r = Some px \<and> poly_max_y r = Some (polyval p px)
            \<and> error_x r = Some \<bar>empirical_max_x r - px\<bar>
            \<and> error_y r = Some \<bar>empirical_max_y r - polyval p px\<bar>
            \<and> warnings r = [])"
proof -
  have xw: "xw \<noteq> []" by (rule np_polyfit_nonempty [OF fit])
  have sv: "set (valid_points np p xw) = (\<lambda>t. (t, polyval p t)) ` V"
    unfolding V by (rule set_valid_points [OF xw])
  then have "valid_points np p xw \<noteq> []" using ne by auto
  then obtain q qs where vp: "valid_points np p xw = q # qs"
    by (cases "valid_points np p xw") auto
  define best where "best = max_key snd q qs"
  have b1: "best \<in> set (q # qs)" and b2: "\<forall>v\<in>set (q # qs). snd v \<le> snd best"
    using max_key_spec [of snd q qs] by (simp_all add: best_def)
  obtain px where px: "px \<in> V" "best = (px, polyval p px)"
    using b1 sv vp by auto
  have top: "\<forall>t\<in>V. polyval p t \<le> polyval p px"
  proof
    fix t assume "t \<in> V"
    then have "(t, polyval p t) \<in> set (q # qs)" using sv vp by auto
    then show "polyval p t \<le> polyval p px" using b2 px(2) by fastforce
  qed
  define rmse where "rmse = sqrt (mean (map2 (\<lambda>yw yf. (yw - yf) ^ 2) yw (map (polyval p) xw)))"
  define r where "r = \<lparr>empirical_max_x = x ! i, empirical_max_y = series_max y,
                     poly_max_x = Some px, poly_max_y = Some (polyval p px),
                     error_x = Some \<bar>x ! i - px\<bar>, error_y = Some \<bar>series_max y - polyval p px\<bar>,
                     RMSE = Some rmse, warnings = []\<rparr>"
  have "fit_and_locate np (x ! i) (series_max y) xw yw order = Inr r"
    using px(2) by (simp add: fit_and_locate_def fit p [symmetric] vp Let_def best_def [symmetric]
          r_def rmse_def)
  then have "compute_max np x y offset order = Inr r"
    by (simp add: compute_max_unfold [OF am il fw])
  moreover have "poly_max_x r = Some px" "poly_max_y r = Some (polyval p px)"
    "error_x r = Some \<bar>empirical_max_x r - px\<bar>"
    "error_y r = Some \<bar>empirical_max_y r - polyval p px\<bar>" "warnings r = []"
    by (simp_all add: r_def)
  ultimately show ?thesis
    using px(1) top polyder_exact by blast
qed

text \<open>
  Claim C4. When the fit succeeds and no critical point is valid, the function does not
  raise: it returns the result with the single warning
  \<open>No valid maxima found in polynomial fit\<close> and with \<open>poly_max_x\<close>, \<open>poly_max_y\<close>,
  \<open>error_x\<close> and \<open>error_y\<close> still unset.
\<close>

theorem compute_max_no_valid_maximum:
  assumes am: "argmax y = Inr i" and il: "i < length x"
    and fw: "fit_window x y i offset = (xw, yw)"
    and fit: "np_polyfit np xw yw order = Inr cs"
    and none: "{t. \<exists>z\<in>set (roots np (polyder (poly1d cs))). Im z = 0 \<and> t = Re z
                     \<and> Min (set xw) \<le> t \<and> t \<le> Max (set xw)} = {}"
  shows "\<exists>r. compute_max np x y offset order = Inr r
            \<and> warnings r = [''No valid maxima found in polynomial fit'']
            \<and> poly_max_x r = None \<and> poly_max_y r = None
            \<and> error_x r = None \<and> error_y r = None"
proof -
  have xw: "xw \<noteq> []" by (rule np_polyfit_nonempty [OF fit])
  have "set (valid_points np (poly1d cs) xw) = {}"
    using set_valid_points [OF xw, of np "poly1d cs"] none by simp
  then have vp: "valid_points np (poly1d cs) xw = []" by simp
  show ?thesis
    by (simp add: compute_max_unfold [OF am il fw] fit_and_locate_def fit vp Let_def)
qed

lemmas compute_max_eval =
  compute_max_def fit_and_locate_def fit_window_def py_slice_def iloc_def np_polyfit_def
  np_replay_def poly1d_def polyval_def polyder_def polyder_coeffs_def valid_points_def
  real_critical_points_def mean_def Let_def

lemma py_slice_same_length: "length xs = length ys \<Longrightarrow> length (py_slice xs a b) = length (py_slice ys a b)"
  by (simp add: py_slice_def Let_def)

lemma fit_and_locate_raises:
  "np_polyfit np xw yw order = Inl e \<Longrightarrow> fit_and_locate np ex ey xw yw order = Inl e"
  by (simp add: fit_and_locate_def)

lemma fit_window_empty:
  assumes "i < length x" and "offset < 0" and "0 \<le> int i + offset + 1"
  shows "fst (fit_window x y i offset) = []"
proof -
  have "min (int (length x)) (int i + offset + 1) \<le> min (int (length x)) (max 0 (int i - offset))"
    using assms by simp
  then show ?thesis
    using assms by (simp add: fit_window_def py_slice_def Let_def)
qed

text \<open>
  Claim C5, amended. \<open>compute_max\<close> validates nothing itself; what it raises is raised by
  \<open>np.polyfit\<close>. It raises when \<open>order\<close> is negative (a \<open>ValueError\<close>) and when the fit
  window is empty (a \<open>TypeError\<close>), which is the case for every negative \<open>offset\<close> with
  \<open>idx_of_max + offset + 1 \<ge> 0\<close>; and an error of the least-squares solver is passed on.
  Nothing is raised merely because the window has fewer than \<open>order + 1\<close> points, because
  \<open>offset\<close> is negative or because \<open>order\<close> is zero, as the three runs below show.
\<close>

theorem compute_max_raises_only:
  assumes len: "length x = length y"
    and am: "argmax y = Inr i"
    and fw: "fit_window x y i offset = (xw, yw)"
  shows "(order < 0 \<longrightarrow> compute_max np x y offset order = Inl ValueError)
       \<and> (0 \<le> order \<and> xw = [] \<longrightarrow> compute_max np x y offset order = Inl TypeError)
       \<and> (offset < 0 \<and> 0 \<le> int i + offset + 1 \<longrightarrow> xw = [])
       \<and> (\<forall>e. 0 \<le> order \<and> xw \<noteq> [] \<and> lstsq np xw yw (nat order) = Inl e \<longrightarrow>
             compute_max np x y offset order = Inl e)"
proof -
  have ne: "y \<noteq> []" using am by auto
  have i: "i < length y"
    using argmax_spec [OF ne] am by auto
  then have il: "i < length x" using len by simp
  have run: "compute_max np x y offset order = fit_and_locate np (x ! i) (series_max y) xw yw order"
    by (rule compute_max_unfold [OF am il fw])
  have same: "length xw = length yw"
    using fw len py_slice_same_length [OF len] by (auto simp: fit_window_def Let_def)
  have a: "compute_max np x y offset order = Inl ValueError" if "order < 0"
  proof -
    have "np_polyfit np xw yw order = Inl ValueError" using that by (simp add: np_polyfit_def)
    then show ?thesis by (simp add: run fit_and_locate_raises)
  qed
  have b: "compute_max np x y offset order = Inl TypeError" if "0 \<le> order \<and> xw = []"
  proof -
    have "np_polyfit np xw yw order = Inl TypeError" using that by (simp add: np_polyfit_def)
    then show ?thesis by (simp add: run fit_and_locate_raises)
  qed
  have c: "xw = []" if "offset < 0 \<and> 0 \<le> int i + offset + 1"
    using fit_window_empty [OF il, of offset y] that fw by simp
  have d: "compute_max np x y offset order = Inl e"
    if "0 \<le> order \<and> xw \<noteq> [] \<and> lstsq np xw yw (nat order) = Inl e" for e
  proof -
    have "np_polyfit np xw yw order = Inl e" using that same by (simp add: np_polyfit_def)
    then show ?thesis by (simp add: run fit_and_locate_raises)
  qed
  show ?thesis using a b c d by blast
qed

text \<open>
  Claim C5 says that the function raises for a window of fewer than \<open>order + 1\<close> points, for
  a negative \<open>offset\<close> and for a non-positive \<open>order\<close>. Three runs that return a result
  instead: \<open>order = 0\<close> (the fitted constant has the zero derivative, without roots); a
  window of one point with \<open>order = 1\<close> (\<open>np.polyfit\<close> only warns of the rank and answers
  the line of least norm through the point); and \<open>offset = -2\<close> at position 0 of six
  points, where the slice \<open>[2:-1]\<close> is the three points at positions 2 to 4. The library
  answers replayed are those of numpy at these calls.
\<close>

theorem compute_max_no_validation:
  "compute_max (np_replay [1] []) [0, 1, 2] [1, 1, 1] 1 0
     = Inr \<lparr>empirical_max_x = 0, empirical_max_y = 1, poly_max_x = None, poly_max_y = None,
            error_x = None, error_y = None, RMSE = Some 0,
            warnings = [''No valid maxima found in polynomial fit'']\<rparr>
   \<and> compute_max (np_replay [1, 1] []) [0, 1, 2] [0, 2, 0] 0 1
     = Inr \<lparr>empirical_max_x = 1, empirical_max_y = 2, poly_max_x = None, poly_max_y = None,
            error_x = None, error_y = None, RMSE = Some 0,
            warnings = [''No valid maxima found in polynomial fit'']\<rparr>
   \<and> compute_max (np_replay [- 1, 5] []) [0, 1, 2, 3, 4, 5] [5, 4, 3, 2, 1, 0] (- 2) 1
     = Inr \<lparr>empirical_max_x = 0, empirical_max_y = 5, poly_max_x = None, poly_max_y = None,
            error_x = None, error_y = None, RMSE = Some 0,
            warnings = [''No valid maxima found in polynomial fit'']\<rparr>"
  by (simp add: compute_max_eval)

text \<open>The parabola \<open>y = -(x - 3)\<^sup>2 + 5\<close> of the specification, sampled at 1 to 5.\<close>

lemma compute_max_parabola_example:
  "compute_max (np_replay [- 1, 6, - 4] [3]) [1, 2, 3, 4, 5] [1, 4, 5, 4, 1] 2 2
     = Inr \<lparr>empirical_max_x = 3, empirical_max_y = 5, poly_max_x = Some 3, poly_max_y = Some 5,
            error_x = Some 0, error_y = Some 0, RMSE = Some 0, warnings = []\<rparr>"
  by (simp add: compute_max_eval)

text \<open>
  Claim C3 says that the roots with a negligible imaginary part are kept. The filter is
  \<open>np.isreal\<close>, which keeps a root only when its imaginary part is exactly zero. Here the
  cubic \<open>-(x - 3)\<^sup>3\<close> is fitted to its own samples at 1 to 5; its derivative
  \<open>-3 (x - 3)\<^sup>2\<close> has the double root 3, inside the window, which the library returns as
  the pair \<open>3 \<plusminus> 10\<^sup>-\<^sup>8 i\<close>. Both are discarded and the run ends with the warning.
\<close>

theorem compute_max_discards_near_real_root:
  "compute_max (np_replay [- 1, 9, - 27, 27] [Complex 3 (1 / 10 ^ 8), Complex 3 (- (1 / 10 ^ 8))])
     [1, 2, 3, 4, 5] [8, 1, 0, - 1, - 8] 4 3
     = Inr \<lparr>empirical_max_x = 1, empirical_max_y = 8, poly_max_x = None, poly_max_y = None,
            error_x = None, error_y = None, RMSE = Some 0,
            warnings = [''No valid maxima found in polynomial fit'']\<rparr>"
  by (simp add: compute_max_eval)

text \<open>
  A fit of degree 6 to eight samples of the polynomial with derivative
  \<open>-60 (x - 2) (x - 4) (x + 10) (x\<^sup>2 + 1)\<close>: of the five roots, two are not real, one lies
  outside the window, and of the two valid ones, 2 (a local minimum) and 4 (a local
  maximum), the one of greater value is chosen.
\<close>

lemma compute_max_five_roots_example:
  "compute_max
     (np_replay [- 10, - 48, 765, - 1680, 1560, - 4800, 0]
        [Complex 0 1, Complex 0 (- 1), - 10, 2, 4])
     [0, 1, 2, 3, 4, 5, 6, 7] [0, - 4213, - 6736, - 2709, 3968, - 23125, - 183888, - 679861] 4 6
     = Inr \<lparr>empirical_max_x = 4, empirical_max_y = 3968, poly_max_x = Some 4,
            poly_max_y = Some 3968, error_x = Some 0, error_y = Some 0, RMSE = Some 0,
            warnings = []\<rparr>"
  by (simp add: compute_max_eval)

subsection \<open>Instances\<close>

theorem compute_max_window_witness:
  "compute_max (np_replay [- 1, 3] []) [0, 1, 2] [3, 2, 1] 5 1
     = fit_and_locate (np_replay [- 1, 3] []) 0 3 [0, 1, 2] [3, 2, 1] 1"
proof -
  obtain i lo hi where h: "argmax [3, 2, 1] = Inr i"
      "int lo = max 0 (int i - 5)" "int hi = min (int (length [0, 1, 2 :: real])) (int i + 5 + 1)"
      "compute_max (np_replay [- 1, 3] []) [0, 1, 2] [3, 2, 1] 5 1 =
         fit_and_locate (np_replay [- 1, 3] []) ([0, 1, 2] ! i) ([3, 2, 1] ! i)
           (map ((!) [0, 1, 2]) [lo..<hi]) (map ((!) [3, 2, 1]) [lo..<hi]) 1"
    using compute_max_window [of "[3, 2, 1]" "[0, 1, 2]" 5 "np_replay [- 1, 3] []" 1]
    by auto
  have "i = 0" using h(1) by simp
  then have "lo = 0" "hi = 3" using h(2,3) by simp_all
  then have "[lo..<hi] = [0, 1, 2]" by (simp add: upt_rec)
  then show ?thesis using h(4) \<open>i = 0\<close> by simp
qed

theorem compute_max_polynomial_maximum_witness:
  "\<exists>r. compute_max
          (np_replay [- 10, - 48, 765, - 1680, 1560, - 4800, 0]
             [Complex 0 1, Complex 0 (- 1), - 10, 2, 4])
          [0, 1, 2, 3, 4, 5, 6, 7] [0, - 4213, - 6736, - 2709, 3968, - 23125, - 183888, - 679861]
          4 6 = Inr r
      \<and> poly_max_x r = Some 4 \<and> poly_max_y r = Some 3968
      \<and> error_x r = Some \<bar>empirical_max_x r - 4\<bar>
      \<and> error_y r = Some \<bar>empirical_max_y r - 3968\<bar>"
proof -
  let ?p = "[- 10, - 48, 765, - 1680, 1560, - 4800, 0] :: real list"
  let ?np = "np_replay ?p [Complex 0 1, Complex 0 (- 1), - 10, 2, 4]"
  let ?x = "[0, 1, 2, 3, 4, 5, 6, 7] :: real list"
  let ?y = "[0, - 4213, - 6736, - 2709, 3968, - 23125, - 183888, - 679861] :: real list"
  have am: "argmax ?y = Inr 4" by simp
  have il: "4 < length ?x" by simp
  have fw: "fit_window ?x ?y 4 4 = (?x, ?y)"
    by (simp add: fit_window_def py_slice_def Let_def)
  have fit: "np_polyfit ?np ?x ?y 6 = Inr ?p"
    by (simp add: np_polyfit_def np_replay_def)
  have p: "?p = poly1d ?p" by (simp add: poly1d_def)
  have V: "{2, 4 :: real} = {t. \<exists>z\<in>set (roots ?np (polyder ?p)). Im z = 0 \<and> t = Re z
                     \<and> Min (set ?x) \<le> t \<and> t \<le> Max (set ?x)}"
    by (auto simp: np_replay_def)
  have ne: "{2, 4 :: real} \<noteq> {}" by simp
  have v: "polyval ?p 2 = - 6736" "polyval ?p 4 = 3968" by (simp_all add: polyval_def)
  obtain r px where r: "compute_max ?np ?x ?y 4 6 = Inr r" "px \<in> {2, 4 :: real}"
      "\<forall>t\<in>{2, 4 :: real}. polyval ?p t \<le> polyval ?p px"
      "poly_max_x r = Some px" "poly_max_y r = Some (polyval ?p px)"
      "error_x r = Some \<bar>empirical_max_x r - px\<bar>"
      "error_y r = Some \<bar>empirical_max_y r - polyval ?p px\<bar>"
    using compute_max_polynomial_maximum [OF am il fw fit p V ne] by blast
  have "px = 4"
  proof (rule ccontr)
    assume "px \<noteq> 4"
    then have "px = 2" using r(2) by simp
    then show False using r(3) v by simp
  qed
  then show ?thesis using r v by simp
qed

theorem compute_max_no_valid_maximum_witness:
  "\<exists>r. compute_max (np_replay [1, 0] []) [0, 1, 2] [0, 1, 2] 1 1 = Inr r
      \<and> warnings r = [''No valid maxima found in polynomial fit'']
      \<and> poly_max_x r = None \<and> poly_max_y r = None \<and> error_x r = None \<and> error_y r = None"
proof -
  let ?np = "np_replay [1, 0] []"
  let ?x = "[0, 1, 2] :: real list"
  have am: "argmax ?x = Inr 2" by simp
  have il: "2 < length ?x" by simp
  have fw: "fit_window ?x ?x 2 1 = ([1, 2], [1, 2])"
    by (simp add: fit_window_def py_slice_def Let_def)
  have fit: "np_polyfit ?np [1, 2] [1, 2] 1 = Inr [1, 0]"
    by (simp add: np_polyfit_def np_replay_def)
  have none: "{t. \<exists>z\<in>set (roots ?np (polyder (poly1d [1, 0]))). Im z = 0 \<and> t = Re z
                     \<and> Min (set [1, 2 :: real]) \<le> t \<and> t \<le> Max (set [1, 2 :: real])} = {}"
    by (simp add: np_replay_def)
  show ?thesis
    using compute_max_no_valid_maximum [OF am il fw fit none] by simp
qed

theorem compute_max_raises_only_witness:
  "compute_max (np_replay [1] []) [0, 1, 2] [1, 1, 1] 1 (- 1) = Inl ValueError
   \<and> compute_max (np_replay [1] []) [0, 1, 2] [1, 1, 1] (- 1) 1 = Inl TypeError
   \<and> compute_max \<lparr>lstsq = (\<lambda>xs ys deg. Inl LinAlgError), roots = (\<lambda>p. [])\<rparr>
        [0, 1, 2] [1, 0, 0] 0 1 = Inl LinAlgError"
proof -
  let ?np = "np_replay [1] []"
  let ?bad = "\<lparr>lstsq = (\<lambda>xs ys deg. Inl LinAlgError), roots = (\<lambda>p. [])\<rparr>"
  let ?x = "[0, 1, 2] :: real list"
  let ?y = "[1, 1, 1] :: real list"
  let ?z = "[1, 0, 0] :: real list"
  have am: "argmax ?y = Inr 0" and az: "argmax ?z = Inr 0" by simp_all
  have len: "length ?x = length ?y" and lez: "length ?x = length ?z" by simp_all
  have w1: "fit_window ?x ?y 0 1 = ([0, 1], [1, 1])"
    and w2: "fit_window ?x ?y 0 (- 1) = ([], [])"
    and w3: "fit_window ?x ?z 0 0 = ([0], [1])"
    by (simp_all add: fit_window_def py_slice_def Let_def)
  have a: "compute_max ?np ?x ?y 1 (- 1) = Inl ValueError"
    using compute_max_raises_only [OF len am w1, of "- 1" ?np] by simp
  have b: "compute_max ?np ?x ?y (- 1) 1 = Inl TypeError"
    using compute_max_raises_only [OF len am w2, of 1 ?np] by simp
  have c: "compute_max ?bad ?x ?z 0 1 = Inl LinAlgError"
    using compute_max_raises_only [OF lez az w3, of 1 ?bad] by simp
  show ?thesis using a b c by blast
qed

end
